theory Spec2Isabelle
  imports Complex_Main "HOL-Library.AList"
begin

section \<open>Numbers and strings of the Python source\<close>

text \<open>
  The development embeds the market-data consensus engine (\<^verbatim>\<open>dex.py\<close>, \<^verbatim>\<open>helpers.py\<close>),
  the evaluation of alert rules (\<^verbatim>\<open>alerts.py\<close>) and the verification of payments
  (\<^verbatim>\<open>payments.py\<close>) of the bot, function by function, and proves the properties that its
  specification states about them.  Network calls, the chat client and the files are
  outside of it: what they answer is an argument of the functions that depend on it.
\<close>

text \<open>
  Python floats are written as the reals they denote, where the code compares them or
  applies a single operation to them; the one float that is not a number and that the
  source manipulates on purpose, \<^verbatim>\<open>float("nan")\<close> in the candidate list, is written \<open>None\<close>
  in a \<open>real option\<close>.  The statistics of the consensus, whose outcome depends on the
  rounding of a chain of floating-point operations, are not modelled: they are an
  argument of the function that uses them.  Python ints are \<open>int\<close>, strings are \<open>string\<close>.
\<close>

section \<open>helpers.py\<close>

text \<open>
  \<^verbatim>\<open>def meets(dir_, current, target):
      if current is None: return False
      return (current >= target) if dir_=="above" else (current <= target)\<close>
\<close>

definition meets :: "string \<Rightarrow> real option \<Rightarrow> real \<Rightarrow> bool" where
  "meets dir current target =
     (case current of
        None \<Rightarrow> False
      | Some c \<Rightarrow> (if dir = ''above'' then c \<ge> target else c \<le> target))"

text \<open>
  \<^verbatim>\<open>def is_solana_address(addr):
      if not addr or addr.startswith("0x"): return False
      return 32 <= len(addr) <= 44 and re.fullmatch(r"[1-9A-HJ-NP-Za-km-z]+", addr) is not None\<close>
\<close>

definition base58_chars :: string where
  "base58_chars = ''123456789ABCDEFGHJKLMNPQRSTUVWXYZabcdefghijkmnopqrstuvwxyz''"

definition is_solana_address :: "string \<Rightarrow> bool" where
  "is_solana_address addr =
     (if addr = [] \<or> take 2 addr = ''0x'' then False
      else 32 \<le> length addr \<and> length addr \<le> 44 \<and> list_all (\<lambda>c. c \<in> set base58_chars) addr)"






section \<open>config.py\<close>

definition SOLANA_USE_FDV :: bool where
  "SOLANA_USE_FDV = True"


section \<open>dex.py\<close>

text \<open>
  A numeric field of a trading pair as the provider's JSON gives it: \<open>Missing\<close> when the
  key is absent or null, \<open>Value r\<close> when \<^verbatim>\<open>float()\<close> (or \<^verbatim>\<open>int()\<close>) of it is \<open>r\<close>,
  \<open>Garbage\<close> when the conversion raises.
\<close>

datatype field = Missing | Value real | Garbage

text \<open>
  The address of the base token as the provider's JSON gives it: \<open>NoAddress\<close> when
  \<^verbatim>\<open>baseToken\<close> or its key \<^verbatim>\<open>address\<close> is absent, \<open>NullAddress\<close> when the key is there with
  the value null, \<open>Address a\<close> when it is the string \<open>a\<close>.
\<close>

datatype address_field = NoAddress | NullAddress | Address string

record Pair =
  chainId :: "string option"
  dexId :: "string option"
  baseToken_address :: address_field
  baseToken_circulatingSupply :: field
  fdv :: field
  marketCap :: field
  priceUsd :: field
  liquidity_usd :: field
  volume_h24 :: field
  txns_h24_buys :: field
  txns_h24_sells :: field

text \<open>\<^verbatim>\<open>pair.get(key)\<close> for the two valuation keys that \<^verbatim>\<open>resolve_mc_value\<close> reads.\<close>

definition pair_get :: "Pair \<Rightarrow> string \<Rightarrow> field" where
  "pair_get pair key =
     (if key = ''fdv'' then fdv pair
      else if key = ''marketCap'' then marketCap pair
      else Missing)"

text \<open>\<^verbatim>\<open>float(x or 0)\<close>: zero for a missing value, \<open>None\<close> when \<^verbatim>\<open>float\<close> raises.\<close>

fun float_or_0 :: "field \<Rightarrow> real option" where
  "float_or_0 Missing = Some 0"
| "float_or_0 (Value r) = Some r"
| "float_or_0 Garbage = None"

text \<open>
  The loop \<^verbatim>\<open>for key in (first, second)\<close> of \<^verbatim>\<open>resolve_mc_value\<close>: the first key whose
  field is present, converts and is positive.
\<close>

fun try_keys :: "Pair \<Rightarrow> string list \<Rightarrow> (real \<times> string) option" where
  "try_keys pair [] = None"
| "try_keys pair (key # keys) =
     (case pair_get pair key of
        Missing \<Rightarrow> try_keys pair keys
      | Garbage \<Rightarrow> try_keys pair keys
      | Value f \<Rightarrow> if f > 0 then Some (f, key) else try_keys pair keys)"

text \<open>
  The second \<^verbatim>\<open>try\<close> block of \<^verbatim>\<open>resolve_mc_value\<close>: price times circulating supply,
  nothing when a conversion raises or one of the two is not positive.
\<close>

definition computed_value :: "Pair \<Rightarrow> real option" where
  "computed_value pair =
     (case float_or_0 (priceUsd pair) of
        None \<Rightarrow> None
      | Some price \<Rightarrow>
          (case float_or_0 (baseToken_circulatingSupply pair) of
             None \<Rightarrow> None
           | Some supply \<Rightarrow> if price > 0 \<and> supply > 0 then Some (price * supply) else None))"

definition resolve_mc_value :: "Pair \<Rightarrow> string \<Rightarrow> real option \<times> string" where
  "resolve_mc_value pair ca =
     (let is_sol = (chainId pair = Some ''solana'' \<or> is_solana_address ca);
          keys = (if SOLANA_USE_FDV \<and> is_sol then [''fdv'', ''marketCap'']
                  else [''marketCap'', ''fdv''])
      in case try_keys pair keys of
           Some (f, key) \<Rightarrow> (Some f, key)
         | None \<Rightarrow>
            (case computed_value pair of
               Some v \<Rightarrow> (Some v, ''computed'')
             | None \<Rightarrow> (None, ''none'')))"



text \<open>
  A candidate \<^verbatim>\<open>(p, mc, liq, vol, src)\<close>; the value \<open>None\<close> is \<^verbatim>\<open>float("nan")\<close>.
\<close>

type_synonym cand = "Pair \<times> real option \<times> real \<times> real \<times> string"




text \<open>
  Lines 80 to 88 of \<^verbatim>\<open>choose_consensus_pair\<close> compute the consensus of the valid values
  in double-precision floating point: \<^verbatim>\<open>math.log10\<close>, the quartiles and fences, \<^verbatim>\<open>10**x\<close>
  and the median.  Which values lie within the fences, and the last digits of the result,
  are decided by the rounding of these operations, which the embedding does not model.
  The computation is therefore an argument of \<open>choose_consensus_pair\<close> below: the
  function \<open>consensus_of\<close> from the sample to its consensus, or to the exception it raises.
\<close>

text \<open>
  The ranking key \<^verbatim>\<open>(rel, -liq, -vol)\<close> and the comparison of two such tuples.
\<close>

type_synonym rank_key = "real \<times> real \<times> real"

fun key_less :: "rank_key \<Rightarrow> rank_key \<Rightarrow> bool" where
  "key_less (a, b, c) (a', b', c') =
     (if a \<noteq> a' then a < a' else if b \<noteq> b' then b < b' else c < c')"




section \<open>models.py\<close>

text \<open>
  The dataclasses of \<^verbatim>\<open>models.py\<close>.  Field names are prefixed with the record they belong
  to (\<open>rem_\<close>, \<open>snap_\<close>, \<open>ev_\<close>, \<open>inv_\<close>), since the dataclasses share several of them.
\<close>

record Reminder =
  rem_ca :: string
  rem_target_mc :: real
  rem_direction :: string
  rem_channel_id :: int
  rem_creator_id :: int
  rem_guild_id :: int
  rem_name :: string
  rem_symbol :: string
  rem_note :: string

record TokenSnapshot =
  snap_mc :: "real option"
  snap_url :: string
  snap_updated_ts :: real
  snap_source :: string
  snap_dex :: string
  snap_chain :: string
  snap_quote :: string
  snap_consensus :: real
  snap_delta :: "real option"
  snap_image_url :: string

record AlertEvent =
  ev_ts :: real
  ev_ca :: string
  ev_name :: string
  ev_symbol :: string
  ev_direction :: string
  ev_target_mc :: real
  ev_current_mc :: "real option"
  ev_channel_id :: int
  ev_guild_id :: int
  ev_creator_id :: int

record Invoice =
  inv_id :: string
  inv_reference :: string
  inv_asset :: string
  inv_mint :: string
  inv_amount_base :: int
  inv_decimals :: int
  inv_user_id :: int
  inv_channel_id :: int
  inv_guild_id :: int
  inv_note :: string
  inv_created_ts :: real
  inv_status :: string
  inv_tx_sig :: string

section \<open>alerts.py: the alert history\<close>

text \<open>
  \<^verbatim>\<open>alert_events.insert(0, __build_event(rem, curr))
  if len(alert_events) > 1000: alert_events.pop()\<close>
\<close>

definition record_event :: "AlertEvent \<Rightarrow> AlertEvent list \<Rightarrow> AlertEvent list" where
  "record_event ev alert_events =
     (let inserted = ev # alert_events
      in if length inserted > 1000 then butlast inserted else inserted)"

text \<open>Newest first by timestamp: the timestamps never increase along the list.\<close>

definition newest_first :: "AlertEvent list \<Rightarrow> bool" where
  "newest_first h = sorted_wrt (\<lambda>a b. ev_ts a \<ge> ev_ts b) h"

text \<open>The history after the insertion of several events, one after the other.\<close>

definition insert_events :: "AlertEvent list \<Rightarrow> AlertEvent list \<Rightarrow> AlertEvent list" where
  "insert_events h evs = foldl (\<lambda>h ev. record_event ev h) h evs"

text \<open>An event with a given timestamp, to build examples from.\<close>

definition ev_example :: "real \<Rightarrow> AlertEvent" where
  "ev_example t = \<lparr> ev_ts = t, ev_ca = ''So11111111111111111111111111111111111111112'',
     ev_name = ''Wrapped SOL'', ev_symbol = ''SOL'', ev_direction = ''above'', ev_target_mc = 100,
     ev_current_mc = Some 120, ev_channel_id = 1, ev_guild_id = 2, ev_creator_id = 3 \<rparr>"

section \<open>alerts.py: the evaluation of the rules in a watch cycle\<close>

text \<open>
  What the surroundings decide in one cycle, by the position \<open>i\<close> of a rule in the copy
  \<^verbatim>\<open>reminders[:]\<close> that the loop walks: the snapshot of the cache (\<^verbatim>\<open>snap.get(rem.ca)\<close>), how
  the \<^verbatim>\<open>try\<close> block of the rule ends, the clock read by \<^verbatim>\<open>__build_event\<close>, and whether
  \<^verbatim>\<open>save_reminders()\<close> returns.  The \<^verbatim>\<open>try\<close> block ends in one of three ways: every call
  returns (\<open>Delivered\<close>); \<^verbatim>\<open>fetch_channel\<close>, \<^verbatim>\<open>username_from_id\<close> or \<^verbatim>\<open>ch.send\<close> raises, before
  the event is recorded (\<open>SendFailed\<close>); \<^verbatim>\<open>save_alerts\<close> raises, after it is recorded
  (\<open>SaveAlertsFailed\<close>).
\<close>

datatype delivery = Delivered | SendFailed | SaveAlertsFailed

record AlertEnv =
  env_snap :: "string \<Rightarrow> TokenSnapshot option"
  env_delivery :: "nat \<Rightarrow> delivery"
  env_time :: "nat \<Rightarrow> real"
  env_save_reminders :: "nat \<Rightarrow> bool"

record WatchState =
  reminders :: "Reminder list"
  alert_events :: "AlertEvent list"

text \<open>\<^verbatim>\<open>__build_event(rem, curr_mc)\<close>, with the value of \<^verbatim>\<open>time.time()\<close> as third argument.\<close>

definition build_event :: "Reminder \<Rightarrow> real option \<Rightarrow> real \<Rightarrow> AlertEvent" where
  "build_event rem curr_mc now =
     \<lparr> ev_ts = now, ev_ca = rem_ca rem, ev_name = rem_name rem, ev_symbol = rem_symbol rem,
       ev_direction = rem_direction rem, ev_target_mc = rem_target_mc rem,
       ev_current_mc = curr_mc, ev_channel_id = rem_channel_id rem,
       ev_guild_id = rem_guild_id rem, ev_creator_id = rem_creator_id rem \<rparr>"

text \<open>\<^verbatim>\<open>s = snap.get(rem.ca); curr = s.mc if s else None\<close>\<close>

definition current_value :: "AlertEnv \<Rightarrow> Reminder \<Rightarrow> real option" where
  "current_value env rem =
     (case env_snap env (rem_ca rem) of None \<Rightarrow> None | Some s \<Rightarrow> snap_mc s)"

text \<open>
  The \<^verbatim>\<open>try\<close> block of a rule that fires, as far as the alert history is concerned: the
  event is recorded unless an exception is raised before line 67.
\<close>

definition attempt_alert :: "AlertEnv \<Rightarrow> nat \<Rightarrow> Reminder \<Rightarrow> AlertEvent list \<Rightarrow> AlertEvent list" where
  "attempt_alert env i rem events =
     (case env_delivery env i of
        SendFailed \<Rightarrow> events
      | Delivered \<Rightarrow> record_event (build_event rem (current_value env rem) (env_time env i)) events
      | SaveAlertsFailed \<Rightarrow>
          record_event (build_event rem (current_value env rem) (env_time env i)) events)"

text \<open>
  The loop \<^verbatim>\<open>for rem in reminders[:]\<close>, from the rule at position \<open>i\<close> on.  An exception
  of \<^verbatim>\<open>reminders.remove(rem)\<close> (the rule is not in the list) or of \<^verbatim>\<open>save_reminders()\<close>
  leaves the loop for the handler of the cycle, with the state as it is then.
\<close>

fun eval_rules :: "AlertEnv \<Rightarrow> nat \<Rightarrow> Reminder list \<Rightarrow> WatchState \<Rightarrow> WatchState" where
  "eval_rules env i [] st = st"
| "eval_rules env i (rem # rest) st =
     (if meets (rem_direction rem) (current_value env rem) (rem_target_mc rem)
      then (let st1 = st\<lparr>alert_events := attempt_alert env i rem (alert_events st)\<rparr>
            in if rem \<in> set (reminders st1)
               then (let st2 = st1\<lparr>reminders := remove1 rem (reminders st1)\<rparr>
                     in if env_save_reminders env i then eval_rules env (Suc i) rest st2
                        else st2)
               else st1)
      else eval_rules env (Suc i) rest st)"

definition watch_cycle :: "AlertEnv \<Rightarrow> WatchState \<Rightarrow> WatchState" where
  "watch_cycle env st = eval_rules env 0 (reminders st) st"

text \<open>Several poll cycles in a row, each with its own surroundings.\<close>

fun run_cycles :: "AlertEnv list \<Rightarrow> WatchState \<Rightarrow> WatchState" where
  "run_cycles [] st = st"
| "run_cycles (env # envs) st = run_cycles envs (watch_cycle env st)"

section \<open>payments.py\<close>

text \<open>
  An integer of a token balance as the ledger's JSON gives it: \<open>Absent\<close> when the key is
  missing or its value is falsy, \<open>Parsed n\<close> when \<^verbatim>\<open>int()\<close> of it is \<open>n\<close>, \<open>Unparseable\<close> when
  \<^verbatim>\<open>int()\<close> raises.
\<close>

datatype int_field = Absent | Parsed int | Unparseable

fun int_or_0 :: "int_field \<Rightarrow> int option" where
  "int_or_0 Absent = Some 0"
| "int_or_0 (Parsed n) = Some n"
| "int_or_0 Unparseable = None"

record TokenBalance =
  tb_mint :: "string option"
  tb_accountIndex :: nat
  tb_owner :: "string option"
  tb_decimals :: int_field
  tb_amount :: int_field

text \<open>
  The result of \<^verbatim>\<open>getTransaction\<close>: the account keys of the message (as strings), and the
  balances of the meta data.
\<close>

record Tx =
  tx_accountKeys :: "string list"
  tx_preBalances :: "int list"
  tx_postBalances :: "int list"
  tx_preTokenBalances :: "TokenBalance list"
  tx_postTokenBalances :: "TokenBalance list"

text \<open>
  The two queries of the ledger: \<^verbatim>\<open>getSignaturesForAddress\<close>, \<open>None\<close> when the call fails or
  its answer has no \<^verbatim>\<open>result\<close>, and \<^verbatim>\<open>getTransaction\<close>, \<open>None\<close> when the call fails or the
  result is null.
\<close>

record Ledger =
  ledger_signatures :: "string list option"
  ledger_transaction :: "string \<Rightarrow> Tx option"

record Config =
  DONATION_WALLET :: string
  PAY_EXPIRY_SEC :: int

text \<open>
  \<^verbatim>\<open>_tb_map\<close>: the dict from account index to \<^verbatim>\<open>(owner, amt, dec)\<close>, as an association list
  with one entry for each key.  An entry of another mint is skipped, and so is one whose
  decimals or amount raise.
\<close>

type_synonym tb_dict = "(nat \<times> (string option \<times> int \<times> int)) list"

fun tb_map :: "string \<Rightarrow> TokenBalance list \<Rightarrow> tb_dict \<Rightarrow> tb_dict" where
  "tb_map mint [] out = out"
| "tb_map mint (tb # tbs) out =
     (if tb_mint tb \<noteq> Some mint then tb_map mint tbs out
      else (case int_or_0 (tb_decimals tb) of
              None \<Rightarrow> tb_map mint tbs out
            | Some dec \<Rightarrow>
                (case int_or_0 (tb_amount tb) of
                   None \<Rightarrow> tb_map mint tbs out
                 | Some amt \<Rightarrow>
                     tb_map mint tbs (AList.update (tb_accountIndex tb) (tb_owner tb, amt, dec) out))))"

text \<open>The body of the loop over the account indices of \<^verbatim>\<open>_sum_usdc_delta_for_wallet\<close>.\<close>

definition add_delta :: "tb_dict \<Rightarrow> tb_dict \<Rightarrow> string \<Rightarrow> nat \<Rightarrow> int \<Rightarrow> int" where
  "add_delta pre_map post_map owner_wallet idx delta_total =
     (let pre_t = map_of pre_map idx; post_t = map_of post_map idx;
          owner = (case post_t of Some (w, a, d) \<Rightarrow> w
                   | None \<Rightarrow> (case pre_t of Some (w, a, d) \<Rightarrow> w | None \<Rightarrow> None))
      in if owner \<noteq> Some owner_wallet then delta_total
         else (let pre_amt = (case pre_t of Some (w, a, d) \<Rightarrow> a | None \<Rightarrow> 0);
                   post_amt = (case post_t of Some (w, a, d) \<Rightarrow> a | None \<Rightarrow> 0);
                   dec = (case post_t of Some (w, a, d) \<Rightarrow> d
                          | None \<Rightarrow> (case pre_t of Some (w, a, d) \<Rightarrow> d | None \<Rightarrow> 0))
               in if dec \<noteq> 6 then delta_total
                  else (let delta = post_amt - pre_amt
                        in if delta > 0 then delta_total + delta else delta_total)))"

text \<open>
  \<^verbatim>\<open>_sum_usdc_delta_for_wallet(meta, msg, mint, owner_wallet)\<close>; the account keys that it
  computes from \<^verbatim>\<open>msg\<close> are not used.
\<close>

definition sum_usdc_delta_for_wallet :: "Tx \<Rightarrow> string \<Rightarrow> string \<Rightarrow> int" where
  "sum_usdc_delta_for_wallet tx mint owner_wallet =
     (let pre_map = tb_map mint (tx_preTokenBalances tx) [];
          post_map = tb_map mint (tx_postTokenBalances tx) []
      in fold (add_delta pre_map post_map owner_wallet)
           (remdups (map fst pre_map @ map fst post_map)) 0)"

text \<open>
  \<^verbatim>\<open>for i,k in enumerate(keys): if k==DONATION_WALLET: idx=i; break\<close>
\<close>

fun first_index :: "string list \<Rightarrow> string \<Rightarrow> nat \<Rightarrow> nat option" where
  "first_index [] w i = None"
| "first_index (k # keys) w i = (if k = w then Some i else first_index keys w (Suc i))"

text \<open>
  The body of the \<^verbatim>\<open>try\<close> block of \<^verbatim>\<open>_find_matching_tx\<close> for one transaction: true when it
  returns the signature, false when it goes on to the next entry.
\<close>

definition tx_matches :: "string \<Rightarrow> string \<Rightarrow> Invoice \<Rightarrow> Tx \<Rightarrow> bool" where
  "tx_matches wallet reference invoice tx =
     (let keys = tx_accountKeys tx
      in if reference \<notin> set keys then False
         else if inv_asset invoice = ''SOL''
         then (let pre = tx_preBalances tx; post = tx_postBalances tx
               in case first_index keys wallet 0 of
                    None \<Rightarrow> False
                  | Some idx \<Rightarrow>
                      if idx < length pre \<and> idx < length post
                      then post ! idx - pre ! idx \<ge> inv_amount_base invoice
                      else False)
         else sum_usdc_delta_for_wallet tx (inv_mint invoice) wallet \<ge> inv_amount_base invoice)"

text \<open>A failed \<^verbatim>\<open>getTransaction\<close> is read as a transaction without keys and balances.\<close>

definition empty_tx :: Tx where
  "empty_tx = \<lparr> tx_accountKeys = [], tx_preBalances = [], tx_postBalances = [],
     tx_preTokenBalances = [], tx_postTokenBalances = [] \<rparr>"

definition fetched_tx :: "Ledger \<Rightarrow> string \<Rightarrow> Tx" where
  "fetched_tx ledger sig = (case ledger_transaction ledger sig of None \<Rightarrow> empty_tx | Some tx \<Rightarrow> tx)"

text \<open>The loop \<^verbatim>\<open>for ent in sigs["result"]\<close>.\<close>

fun scan_signatures :: "string \<Rightarrow> Ledger \<Rightarrow> string \<Rightarrow> Invoice \<Rightarrow> string list \<Rightarrow> string option" where
  "scan_signatures wallet ledger reference invoice [] = None"
| "scan_signatures wallet ledger reference invoice (sig # sigs) =
     (if tx_matches wallet reference invoice (fetched_tx ledger sig) then Some sig
      else scan_signatures wallet ledger reference invoice sigs)"

definition find_matching_tx :: "Config \<Rightarrow> Ledger \<Rightarrow> string \<Rightarrow> Invoice \<Rightarrow> string option" where
  "find_matching_tx cfg ledger reference invoice =
     (if \<not> is_solana_address (DONATION_WALLET cfg) then None
      else (case ledger_signatures ledger of
              None \<Rightarrow> None
            | Some sigs \<Rightarrow> scan_signatures (DONATION_WALLET cfg) ledger reference invoice sigs))"

text \<open>
  The body of the loop \<^verbatim>\<open>for inv in list(invoices)\<close> of \<^verbatim>\<open>payments_watcher\<close>.  The messages
  to the channel are sent after the status is set, and their failure is caught.
\<close>

definition watch_invoice :: "Config \<Rightarrow> real \<Rightarrow> Ledger \<Rightarrow> Invoice \<Rightarrow> Invoice" where
  "watch_invoice cfg now ledger invoice =
     (if inv_status invoice \<noteq> ''pending'' then invoice
      else if now - inv_created_ts invoice > real_of_int (PAY_EXPIRY_SEC cfg)
      then invoice\<lparr>inv_status := ''expired''\<rparr>
      else (case find_matching_tx cfg ledger (inv_reference invoice) invoice of
              None \<Rightarrow> invoice
            | Some sig \<Rightarrow>
                if sig \<noteq> [] then invoice\<lparr>inv_status := ''paid'', inv_tx_sig := sig\<rparr> else invoice))"

text \<open>
  One cycle of \<^verbatim>\<open>payments_watcher\<close>; the ledger may answer differently for each
  invoice, so it is given by the position of the invoice.
\<close>

definition payments_cycle :: "Config \<Rightarrow> real \<Rightarrow> (nat \<Rightarrow> Ledger) \<Rightarrow> Invoice list \<Rightarrow> Invoice list" where
  "payments_cycle cfg now ledger invoices =
     map (\<lambda>(i, invoice). watch_invoice cfg now (ledger i) invoice) (zip [0..<length invoices] invoices)"

section \<open>Vocabulary of the statements\<close>

text \<open>
  The definitions of this section are not embedded from the source.  They name what the
  theorems say about it: notions worded as the specification words them (a positive
  field, the ranking of candidates, the order of the alert history, balance deltas), to
  be compared with the definitions embedded from the source above, and concrete pairs,
  rules, invoices and transactions for the examples.
\<close>

text \<open>
  A field that parses to a strictly positive number, and the condition under which the
  fully diluted value is read first.
\<close>

definition positive :: "field \<Rightarrow> real option" where
  "positive x = (case x of Value r \<Rightarrow> if r > 0 then Some r else None | _ \<Rightarrow> None)"

definition prefers_fdv :: "Pair \<Rightarrow> string \<Rightarrow> bool" where
  "prefers_fdv pair ca = (SOLANA_USE_FDV \<and> (chainId pair = Some ''solana'' \<or> is_solana_address ca))"

text \<open>A trading pair with every field absent, to build examples from.\<close>

definition pair0 :: Pair where
  "pair0 = \<lparr> chainId = None, dexId = None, baseToken_address = NoAddress,
     baseToken_circulatingSupply = Missing, fdv = Missing, marketCap = Missing, priceUsd = Missing,
     liquidity_usd = Missing, volume_h24 = Missing, txns_h24_buys = Missing, txns_h24_sells = Missing \<rparr>"


text \<open>
  The values of the candidates that have one, in list order: the statistical sample.
\<close>

definition cand_values :: "cand list \<Rightarrow> real list" where
  "cand_values cands = concat (map (\<lambda>(p, mc, liq, vol, src). case mc of None \<Rightarrow> [] | Some v \<Rightarrow> [v]) cands)"




text \<open>The order on ranking keys that \<open>key_less\<close> is the strict part of.\<close>

definition key_le :: "rank_key \<Rightarrow> rank_key \<Rightarrow> bool" where
  "key_le a b = (\<not> key_less b a)"



text \<open>
  The firing predicate of a rule on the snapshot of a cycle; the number of rules of the
  copy that the loop of a cycle evaluates (all of them, unless \<^verbatim>\<open>save_reminders\<close> raises
  after a fire); and the events of the rules that fire and whose notification is
  delivered, in the order of the loop.
\<close>

definition fires :: "AlertEnv \<Rightarrow> Reminder \<Rightarrow> bool" where
  "fires env rem = meets (rem_direction rem) (current_value env rem) (rem_target_mc rem)"

fun processed :: "AlertEnv \<Rightarrow> nat \<Rightarrow> Reminder list \<Rightarrow> nat" where
  "processed env i [] = 0"
| "processed env i (rem # rest) =
     (if fires env rem \<and> \<not> env_save_reminders env i then 1
      else Suc (processed env (Suc i) rest))"

fun fired_events :: "AlertEnv \<Rightarrow> nat \<Rightarrow> Reminder list \<Rightarrow> AlertEvent list" where
  "fired_events env i [] = []"
| "fired_events env i (rem # rest) =
     (if fires env rem \<and> env_delivery env i \<noteq> SendFailed
      then [build_event rem (current_value env rem) (env_time env i)] else [])
     @ fired_events env (Suc i) rest"

text \<open>A rule, a snapshot, surroundings and a state to build examples from.\<close>

definition rem_ex :: Reminder where
  "rem_ex = \<lparr> rem_ca = ''So11111111111111111111111111111111111111112'', rem_target_mc = 100,
     rem_direction = ''above'', rem_channel_id = 1, rem_creator_id = 3, rem_guild_id = 2,
     rem_name = ''Wrapped SOL'', rem_symbol = ''SOL'', rem_note = [] \<rparr>"

definition snap_ex :: TokenSnapshot where
  "snap_ex = \<lparr> snap_mc = Some 120, snap_url = ''https://dexscreener.com'', snap_updated_ts = 0,
     snap_source = ''fdv'', snap_dex = [], snap_chain = ''solana'', snap_quote = [],
     snap_consensus = 120, snap_delta = None, snap_image_url = [] \<rparr>"

definition env_ex :: "delivery \<Rightarrow> AlertEnv" where
  "env_ex outcome = \<lparr> env_snap = (\<lambda>ca. Some snap_ex), env_delivery = (\<lambda>i. outcome),
     env_time = (\<lambda>i. 30), env_save_reminders = (\<lambda>i. True) \<rparr>"

definition st_ex :: WatchState where
  "st_ex = \<lparr> reminders = [rem_ex], alert_events = [] \<rparr>"

text \<open>
  The post-minus-pre balance delta of the recipient wallet's account in a transaction,
  when the wallet is among the account keys and both balances are listed.
\<close>

definition native_delta :: "string \<Rightarrow> Tx \<Rightarrow> int option" where
  "native_delta wallet tx =
     (let i = length (takeWhile (\<lambda>k. k \<noteq> wallet) (tx_accountKeys tx))
      in if wallet \<in> set (tx_accountKeys tx) \<and> i < length (tx_preBalances tx)
            \<and> i < length (tx_postBalances tx)
         then Some (tx_postBalances tx ! i - tx_preBalances tx ! i)
         else None)"

text \<open>
  The token accounts of a mint in a list of token balances: account index to owner,
  amount and decimals; of two balances with the same index the later one counts.
\<close>

definition entry_of :: "string \<Rightarrow> TokenBalance \<Rightarrow> (nat \<times> (string option \<times> int \<times> int)) option" where
  "entry_of mint tb =
     (if tb_mint tb \<noteq> Some mint then None
      else (case (int_or_0 (tb_amount tb), int_or_0 (tb_decimals tb)) of
              (Some amt, Some dec) \<Rightarrow> Some (tb_accountIndex tb, (tb_owner tb, amt, dec))
            | _ \<Rightarrow> None))"

definition token_accounts :: "string \<Rightarrow> TokenBalance list \<Rightarrow> nat \<Rightarrow> (string option \<times> int \<times> int) option" where
  "token_accounts mint tbs = map_of (rev (List.map_filter (entry_of mint) tbs))"

definition token_account_ids :: "string \<Rightarrow> Tx \<Rightarrow> nat set" where
  "token_account_ids mint tx =
     dom (token_accounts mint (tx_preTokenBalances tx))
     \<union> dom (token_accounts mint (tx_postTokenBalances tx))"

text \<open>
  The post-minus-pre delta of a token account that the wallet owns at the expected
  precision of 6 decimals (owner and decimals are those after the transaction, or those
  before it for an account that is gone).
\<close>

definition owned_delta :: "string \<Rightarrow> string \<Rightarrow> Tx \<Rightarrow> nat \<Rightarrow> int option" where
  "owned_delta mint wallet tx idx =
     (let pre_t = token_accounts mint (tx_preTokenBalances tx) idx;
          post_t = token_accounts mint (tx_postTokenBalances tx) idx;
          current = (case post_t of Some e \<Rightarrow> Some e | None \<Rightarrow> pre_t)
      in case current of
           None \<Rightarrow> None
         | Some (owner, amt, dec) \<Rightarrow>
             if owner = Some wallet \<and> dec = 6
             then Some ((case post_t of Some (w, a, d) \<Rightarrow> a | None \<Rightarrow> 0)
                        - (case pre_t of Some (w, a, d) \<Rightarrow> a | None \<Rightarrow> 0))
             else None)"

text \<open>
  The summed delta as the specification words it, over all such accounts, and the sum of
  the deltas that are positive.
\<close>

definition summed_token_delta :: "string \<Rightarrow> string \<Rightarrow> Tx \<Rightarrow> int" where
  "summed_token_delta mint wallet tx =
     (\<Sum>idx \<in> token_account_ids mint tx.
        case owned_delta mint wallet tx idx of None \<Rightarrow> 0 | Some d \<Rightarrow> d)"

definition incoming_token_delta :: "string \<Rightarrow> string \<Rightarrow> Tx \<Rightarrow> int" where
  "incoming_token_delta mint wallet tx =
     (\<Sum>idx \<in> token_account_ids mint tx.
        case owned_delta mint wallet tx idx of None \<Rightarrow> 0 | Some d \<Rightarrow> max 0 d)"

text \<open>A wallet, a mint, invoices, transactions and a ledger to build examples from.\<close>

definition wallet_ex :: string where
  "wallet_ex = ''So11111111111111111111111111111111111111112''"

definition mint_ex :: string where
  "mint_ex = ''EPjFWdd5AufqSSqeM2qN1xzybapC8G4wEGGkZwyTDt1v''"

definition cfg_ex :: Config where
  "cfg_ex = \<lparr> DONATION_WALLET = wallet_ex, PAY_EXPIRY_SEC = 1800 \<rparr>"

definition inv_sol :: Invoice where
  "inv_sol = \<lparr> inv_id = ''4Nd1mB'', inv_reference = ''Ref1'', inv_asset = ''SOL'', inv_mint = [],
     inv_amount_base = 1000, inv_decimals = 9, inv_user_id = 7, inv_channel_id = 1,
     inv_guild_id = 2, inv_note = [], inv_created_ts = 0, inv_status = ''pending'',
     inv_tx_sig = [] \<rparr>"

definition inv_usdc :: Invoice where
  "inv_usdc = inv_sol\<lparr> inv_asset := ''USDC'', inv_mint := mint_ex, inv_amount_base := 8,
     inv_decimals := 6 \<rparr>"

definition tx_sol :: Tx where
  "tx_sol = \<lparr> tx_accountKeys = [''Payer'', wallet_ex, ''Ref1''],
     tx_preBalances = [5000, 100, 0], tx_postBalances = [3995, 1100, 0],
     tx_preTokenBalances = [], tx_postTokenBalances = [] \<rparr>"

definition tx_noref :: Tx where
  "tx_noref = tx_sol\<lparr> tx_accountKeys := [''Payer'', wallet_ex] \<rparr>"

definition token_balance :: "nat \<Rightarrow> int \<Rightarrow> TokenBalance" where
  "token_balance idx amt = \<lparr> tb_mint = Some mint_ex, tb_accountIndex = idx,
     tb_owner = Some wallet_ex, tb_decimals = Parsed 6, tb_amount = Parsed amt \<rparr>"

definition tx_token :: Tx where
  "tx_token = \<lparr> tx_accountKeys = [''Payer'', ''Ata1'', ''Ata2'', ''Ref1''],
     tx_preBalances = [5000, 0, 0, 0], tx_postBalances = [4995, 0, 0, 0],
     tx_preTokenBalances = [token_balance 1 0, token_balance 2 5],
     tx_postTokenBalances = [token_balance 1 10, token_balance 2 0] \<rparr>"

definition ledger_ex :: Ledger where
  "ledger_ex = \<lparr> ledger_signatures = Some [''sig1''],
     ledger_transaction = (\<lambda>s. if s = ''sig1'' then Some tx_sol else None) \<rparr>"

section \<open>Theorems\<close>

text \<open>
  C7.  The firing predicate: with direction above it holds exactly when the current value
  is defined and at least the target, with direction below exactly when the current value
  is defined and at most the target, and it never holds for an undefined current value,
  whatever the direction and the target.
\<close>

theorem meets_spec:
  "(meets ''above'' current target \<longleftrightarrow> (\<exists>c. current = Some c \<and> c \<ge> target))
   \<and> (meets ''below'' current target \<longleftrightarrow> (\<exists>c. current = Some c \<and> c \<le> target))
   \<and> \<not> meets dir None target"
  by (cases current) (simp_all add: meets_def)

lemma record_event_take:
  assumes "length h \<le> 1000"
  shows "record_event ev h = take 1000 (ev # h)"
proof (cases "length h = 1000")
  case True
  have "butlast (ev # h) = take (length (ev # h) - 1) (ev # h)"
    by (rule butlast_conv_take)
  also have "length (ev # h) - 1 = 1000"
    using True by simp
  finally show ?thesis
    using True by (simp add: record_event_def Let_def)
next
  case False
  with assms have "length h < 1000" by simp
  then show ?thesis
    by (simp add: record_event_def Let_def)
qed

lemma newest_first_Cons:
  "newest_first (ev # h) \<longleftrightarrow> list_all (\<lambda>e. ev_ts e \<le> ev_ts ev) h \<and> newest_first h"
  by (auto simp: newest_first_def list_all_iff)

lemma record_event_Cons:
  "record_event ev h = ev # (if 1000 \<le> length h then butlast h else h)"
proof (cases "1000 \<le> length h")
  case True
  then have "h \<noteq> []" by auto
  with True show ?thesis by (simp add: record_event_def Let_def)
next
  case False
  then show ?thesis by (simp add: record_event_def Let_def)
qed

lemma record_event_take_max:
  "record_event ev h = take (max 1000 (length h)) (ev # h)"
proof (cases "1000 \<le> length h")
  case True
  then have "h \<noteq> []" by auto
  then obtain n where n: "length h = Suc n" by (cases h) auto
  have "butlast h = take n h" using n by (simp add: butlast_conv_take)
  with True n show ?thesis by (simp add: record_event_Cons max_def)
next
  case False
  then show ?thesis by (simp add: record_event_Cons max_def)
qed

lemma take_append_take: "take n (xs @ take n ys) = take n (xs @ ys)"
  by (simp add: min_def)

lemma insert_events_take:
  "insert_events h evs = take (max 1000 (length h)) (rev evs @ h)"
proof (induction evs arbitrary: h)
  case Nil
  then show ?case by (simp add: insert_events_def)
next
  case (Cons ev evs)
  define m where "m = max 1000 (length h)"
  have len: "max 1000 (length (record_event ev h)) = m"
    unfolding record_event_take_max m_def by (simp add: max_def min_def)
  have "insert_events h (ev # evs) = insert_events (record_event ev h) evs"
    by (simp add: insert_events_def)
  also have "\<dots> = take m (rev evs @ record_event ev h)"
    by (simp add: Cons.IH len)
  also have "\<dots> = take m (rev evs @ take m (ev # h))"
    by (simp add: record_event_take_max m_def)
  also have "\<dots> = take m (rev evs @ ev # h)"
    by (rule take_append_take)
  finally show ?case by (simp add: m_def)
qed

text \<open>
  C8 (as the code has it).  An insertion puts the new event at the front and, when the
  history already holds 1000 entries or more, drops its last entry; a history within the
  capacity stays within it.  The history built from the empty one by any insertions is the
  last 1000 inserted events, the most recently inserted first, so it has at most 1000
  entries and is ordered by insertion.  It is ordered newest first by timestamp exactly
  when the new event is stamped no earlier than the entries that are kept and these are
  so ordered: the code does not sort on insertion.
\<close>

theorem record_event_prepends_and_caps:
  "record_event ev h = ev # (if 1000 \<le> length h then butlast h else h)
   \<and> length (record_event ev h) \<le> max 1000 (length h)
   \<and> insert_events h evs = take (max 1000 (length h)) (rev evs @ h)
   \<and> insert_events [] evs = take 1000 (rev evs)
   \<and> length (insert_events [] evs) \<le> 1000
   \<and> (newest_first (record_event ev h) \<longleftrightarrow>
        list_all (\<lambda>e. ev_ts e \<le> ev_ts ev) (if 1000 \<le> length h then butlast h else h)
        \<and> newest_first (if 1000 \<le> length h then butlast h else h))"
proof -
  have "length (record_event ev h) \<le> max 1000 (length h)"
    by (simp add: record_event_take_max)
  moreover have "insert_events [] evs = take 1000 (rev evs)"
    by (simp add: insert_events_take)
  moreover have "length (insert_events [] evs) \<le> 1000"
    by (simp add: insert_events_take)
  ultimately show ?thesis
    by (simp add: record_event_Cons [symmetric] insert_events_take)
       (simp add: record_event_Cons newest_first_Cons)
qed

lemma butlast_replicate_Suc: "butlast (replicate (Suc n) x) = replicate n x"
  by (induction n) simp_all

theorem record_event_prepends_and_caps_witness:
  "record_event (ev_example 30) (replicate 1000 (ev_example 20))
     = ev_example 30 # replicate 999 (ev_example 20)
   \<and> length (record_event (ev_example 30) (replicate 1000 (ev_example 20))) = 1000
   \<and> insert_events [] [ev_example 10, ev_example 20, ev_example 30]
     = [ev_example 30, ev_example 20, ev_example 10]
   \<and> newest_first (record_event (ev_example 30) [ev_example 20, ev_example 10])"
proof -
  have b: "butlast (replicate 1000 (ev_example 20)) = replicate 999 (ev_example 20)"
    using butlast_replicate_Suc [of 999 "ev_example 20"] by simp
  have 1: "record_event (ev_example 30) (replicate 1000 (ev_example 20))
     = ev_example 30 # replicate 999 (ev_example 20)"
    using record_event_prepends_and_caps [of "ev_example 30" "replicate 1000 (ev_example 20)" "[]"]
    by (simp add: b)
  have 2: "insert_events [] [ev_example 10, ev_example 20, ev_example 30]
     = [ev_example 30, ev_example 20, ev_example 10]"
    using record_event_prepends_and_caps
      [of "ev_example 30" "[]" "[ev_example 10, ev_example 20, ev_example 30]"]
    by simp
  have 3: "newest_first (record_event (ev_example 30) [ev_example 20, ev_example 10])"
    using record_event_prepends_and_caps [of "ev_example 30" "[ev_example 20, ev_example 10]" "[]"]
    by (simp add: newest_first_def ev_example_def)
  from 1 2 3 show ?thesis by simp
qed

text \<open>
  The claim as the specification words it, with a history that is always ordered newest
  first, fails for an event that is stamped earlier than the entries of the history (the
  wall clock was set back, or the stored history carries later timestamps): the history
  with the timestamps 20, 10 is ordered, and after the insertion of an event stamped 5 the
  timestamps are 5, 20, 10.
\<close>

theorem newest_first_counterexample:
  "newest_first [ev_example 20, ev_example 10]
   \<and> map ev_ts (record_event (ev_example 5) [ev_example 20, ev_example 10]) = [5, 20, 10]
   \<and> \<not> newest_first (record_event (ev_example 5) [ev_example 20, ev_example 10])"
  by (simp add: record_event_def newest_first_def ev_example_def)

lemma try_keys_two:
  "try_keys pair [k1, k2] =
     (case positive (pair_get pair k1) of
        Some f \<Rightarrow> Some (f, k1)
      | None \<Rightarrow> (case positive (pair_get pair k2) of Some f \<Rightarrow> Some (f, k2) | None \<Rightarrow> None))"
  by (simp add: positive_def split: field.splits)

lemma computed_value_positive:
  "computed_value pair =
     (case (positive (priceUsd pair), positive (baseToken_circulatingSupply pair)) of
        (Some price, Some supply) \<Rightarrow> Some (price * supply)
      | _ \<Rightarrow> None)"
  by (cases "priceUsd pair"; cases "baseToken_circulatingSupply pair")
     (simp_all add: computed_value_def positive_def)

text \<open>
  C10.  \<^verbatim>\<open>resolve_mc_value\<close> reads the fully diluted value before the market cap when the
  diluted valuation is the configured preference and the pair is on the preferred chain
  (its chain is \<^verbatim>\<open>solana\<close> or the token identifier is an address of that chain), and the
  market cap before the fully diluted value otherwise; it accepts a field only when it
  parses to a strictly positive number; when neither field is accepted it returns price
  times circulating supply with the tag \<^verbatim>\<open>"computed"\<close> if both are positive, and no value with
  the tag \<^verbatim>\<open>"none"\<close> otherwise.
\<close>

theorem resolve_mc_value_spec:
  "resolve_mc_value pair ca =
     (let (first, second) = (if prefers_fdv pair ca then (''fdv'', ''marketCap'')
                             else (''marketCap'', ''fdv''))
      in case positive (pair_get pair first) of
           Some f \<Rightarrow> (Some f, first)
         | None \<Rightarrow>
            (case positive (pair_get pair second) of
               Some f \<Rightarrow> (Some f, second)
             | None \<Rightarrow>
                (case (positive (priceUsd pair), positive (baseToken_circulatingSupply pair)) of
                   (Some price, Some supply) \<Rightarrow> (Some (price * supply), ''computed'')
                 | _ \<Rightarrow> (None, ''none''))))"
proof -
  have res: "resolve_mc_value pair ca =
      (case try_keys pair (if prefers_fdv pair ca then [''fdv'', ''marketCap'']
                           else [''marketCap'', ''fdv'']) of
         Some (f, key) \<Rightarrow> (Some f, key)
       | None \<Rightarrow> (case computed_value pair of
                     Some v \<Rightarrow> (Some v, ''computed'') | None \<Rightarrow> (None, ''none'')))"
    unfolding resolve_mc_value_def Let_def prefers_fdv_def by (rule refl)
  show ?thesis
  proof (cases "prefers_fdv pair ca")
    case True
    then show ?thesis
      unfolding res computed_value_positive
      by (simp add: try_keys_two del: try_keys.simps split: option.splits)
  next
    case False
    then show ?thesis
      unfolding res computed_value_positive
      by (simp add: try_keys_two del: try_keys.simps split: option.splits)
  qed
qed

theorem resolve_mc_value_spec_witness:
  "resolve_mc_value (pair0\<lparr>fdv := Value 5, marketCap := Value 7\<rparr>) ''0xabc'' = (Some 7, ''marketCap'')
   \<and> resolve_mc_value (pair0\<lparr>chainId := Some ''solana'', fdv := Value 5, marketCap := Value 7\<rparr>) ''0xabc''
       = (Some 5, ''fdv'')
   \<and> resolve_mc_value (pair0\<lparr>fdv := Value 0, marketCap := Garbage, priceUsd := Value 2,
         baseToken_circulatingSupply := Value 3\<rparr>) ''0xabc'' = (Some 6, ''computed'')
   \<and> resolve_mc_value (pair0\<lparr>fdv := Value (- 1), priceUsd := Garbage,
         baseToken_circulatingSupply := Value 3\<rparr>) ''0xabc'' = (None, ''none'')"
  unfolding resolve_mc_value_spec
  by (simp add: prefers_fdv_def SOLANA_USE_FDV_def is_solana_address_def pair_get_def positive_def pair0_def)

lemma try_keys_pos: "try_keys pair keys = Some (f, key) \<Longrightarrow> f > 0"
  by (induction keys) (auto split: field.splits if_splits)

lemma computed_value_pos: "computed_value pair = Some v \<Longrightarrow> v > 0"
  by (auto simp: computed_value_def split: option.splits if_splits)

lemma resolve_mc_value_pos: "resolve_mc_value pair ca = (Some v, src) \<Longrightarrow> v > 0"
  by (auto simp: resolve_mc_value_def Let_def split: option.splits
           dest: try_keys_pos computed_value_pos)

lemma cand_values_append [simp]: "cand_values (xs @ ys) = cand_values xs @ cand_values ys"
  by (simp add: cand_values_def)













lemma key_less_le: "key_less a b \<Longrightarrow> key_le a b"
  by (cases a; cases b) (auto simp: key_le_def split: if_splits)









lemma attempt_alert_take:
  "length events \<le> 1000 \<Longrightarrow>
   attempt_alert env i rem events =
     take 1000 ((if env_delivery env i \<noteq> SendFailed
                 then [build_event rem (current_value env rem) (env_time env i)] else []) @ events)"
  by (cases "env_delivery env i") (simp_all add: attempt_alert_def record_event_take)

lemma eval_rules_reminders:
  assumes "reminders st = pre @ xs" and "\<forall>p\<in>set pre. \<not> fires env p"
  shows "reminders (eval_rules env i xs st)
     = pre @ filter (\<lambda>r. \<not> fires env r) (take (processed env i xs) xs)
         @ drop (processed env i xs) xs"
  using assms
proof (induction xs arbitrary: i st pre)
  case Nil
  then show ?case by simp
next
  case (Cons rem rest)
  show ?case
  proof (cases "fires env rem")
    case False
    have "reminders (eval_rules env (Suc i) rest st)
        = (pre @ [rem]) @ filter (\<lambda>r. \<not> fires env r) (take (processed env (Suc i) rest) rest)
           @ drop (processed env (Suc i) rest) rest"
      using Cons.prems False by (intro Cons.IH) auto
    with False show ?thesis by (simp add: fires_def)
  next
    case True
    define st1 where "st1 = st\<lparr>alert_events := attempt_alert env i rem (alert_events st)\<rparr>"
    define st2 where "st2 = st1\<lparr>reminders := remove1 rem (reminders st1)\<rparr>"
    have notin: "rem \<notin> set pre" using True Cons.prems(2) by auto
    have r1: "reminders st1 = pre @ rem # rest" using Cons.prems(1) by (simp add: st1_def)
    then have mem: "rem \<in> set (reminders st1)" by simp
    have r2: "reminders st2 = pre @ rest"
      using notin by (simp add: st2_def r1 remove1_append)
    have step: "eval_rules env i (rem # rest) st
        = (if env_save_reminders env i then eval_rules env (Suc i) rest st2 else st2)"
      using True mem unfolding fires_def st2_def st1_def by (simp add: Let_def)
    show ?thesis
    proof (cases "env_save_reminders env i")
      case False
      with True step r2 show ?thesis by simp
    next
      case ok: True
      have "reminders (eval_rules env (Suc i) rest st2)
        = pre @ filter (\<lambda>r. \<not> fires env r) (take (processed env (Suc i) rest) rest)
           @ drop (processed env (Suc i) rest) rest"
        using r2 Cons.prems(2) by (intro Cons.IH)
      with True ok step show ?thesis by simp
    qed
  qed
qed

lemma eval_rules_events:
  assumes "reminders st = pre @ xs" and "\<forall>p\<in>set pre. \<not> fires env p"
    and "length (alert_events st) \<le> 1000"
  shows "alert_events (eval_rules env i xs st)
     = take 1000 (rev (fired_events env i (take (processed env i xs) xs)) @ alert_events st)"
  using assms
proof (induction xs arbitrary: i st pre)
  case Nil
  then show ?case by simp
next
  case (Cons rem rest)
  show ?case
  proof (cases "fires env rem")
    case False
    have "alert_events (eval_rules env (Suc i) rest st)
       = take 1000 (rev (fired_events env (Suc i) (take (processed env (Suc i) rest) rest))
                    @ alert_events st)"
      using Cons.prems False by (intro Cons.IH [where pre = "pre @ [rem]"]) auto
    with False show ?thesis by (simp add: fires_def)
  next
    case True
    define new where "new = (if env_delivery env i \<noteq> SendFailed
        then [build_event rem (current_value env rem) (env_time env i)] else [])"
    define st1 where "st1 = st\<lparr>alert_events := attempt_alert env i rem (alert_events st)\<rparr>"
    define st2 where "st2 = st1\<lparr>reminders := remove1 rem (reminders st1)\<rparr>"
    have e2: "alert_events st2 = take 1000 (new @ alert_events st)"
      using Cons.prems(3) by (simp add: st2_def st1_def new_def attempt_alert_take)
    then have l2: "length (alert_events st2) \<le> 1000" by simp
    have notin: "rem \<notin> set pre" using True Cons.prems(2) by auto
    have r1: "reminders st1 = pre @ rem # rest" using Cons.prems(1) by (simp add: st1_def)
    then have mem: "rem \<in> set (reminders st1)" by simp
    have r2: "reminders st2 = pre @ rest"
      using notin by (simp add: st2_def r1 remove1_append)
    have step: "eval_rules env i (rem # rest) st
        = (if env_save_reminders env i then eval_rules env (Suc i) rest st2 else st2)"
      using True mem unfolding fires_def st2_def st1_def by (simp add: Let_def)
    show ?thesis
    proof (cases "env_save_reminders env i")
      case False
      with True step e2 show ?thesis by (simp add: new_def)
    next
      case ok: True
      have "alert_events (eval_rules env (Suc i) rest st2)
        = take 1000 (rev (fired_events env (Suc i) (take (processed env (Suc i) rest) rest))
                     @ alert_events st2)"
        using r2 Cons.prems(2) l2 by (intro Cons.IH)
      also have "\<dots> = take 1000 (rev (fired_events env (Suc i) (take (processed env (Suc i) rest) rest))
                     @ new @ alert_events st)"
        unfolding e2 by (rule take_append_take)
      finally show ?thesis
        using True ok step by (simp add: new_def)
    qed
  qed
qed

lemma processed_le: "processed env i xs \<le> length xs"
  by (induction xs arbitrary: i) auto

lemma processed_reaches:
  "k < length xs \<Longrightarrow> \<forall>j<k. fires env (xs ! j) \<longrightarrow> env_save_reminders env (i + j) \<Longrightarrow>
   k < processed env i xs"
proof (induction xs arbitrary: i k)
  case Nil
  then show ?case by simp
next
  case (Cons x xs)
  show ?case
  proof (cases k)
    case 0
    then show ?thesis by simp
  next
    case (Suc k')
    have x: "fires env x \<longrightarrow> env_save_reminders env i"
      using Cons.prems(2) Suc by (auto dest: spec [of _ 0])
    have "\<forall>j<k'. fires env (xs ! j) \<longrightarrow> env_save_reminders env (Suc i + j)"
      using Cons.prems(2) Suc by (auto dest: spec [of _ "Suc j" for j])
    moreover have "k' < length xs" using Cons.prems(1) Suc by simp
    ultimately have "k' < processed env (Suc i) xs" by (intro Cons.IH)
    with x Suc show ?thesis by auto
  qed
qed

lemma processed_all: "\<forall>j. env_save_reminders env j \<Longrightarrow> processed env i xs = length xs"
  by (induction xs arbitrary: i) auto

lemma fired_events_append:
  "fired_events env i (xs @ ys) = fired_events env i xs @ fired_events env (i + length xs) ys"
  by (induction xs arbitrary: i) auto

lemma watch_cycle_subset: "set (reminders (watch_cycle env st)) \<subseteq> set (reminders st)"
proof -
  have "reminders (watch_cycle env st)
     = [] @ filter (\<lambda>r. \<not> fires env r) (take (processed env 0 (reminders st)) (reminders st))
         @ drop (processed env 0 (reminders st)) (reminders st)"
    unfolding watch_cycle_def by (rule eval_rules_reminders) simp_all
  then show ?thesis
    by (auto dest: in_set_takeD in_set_dropD)
qed

lemma run_cycles_subset: "set (reminders (run_cycles envs st)) \<subseteq> set (reminders st)"
proof (induction envs arbitrary: st)
  case Nil
  then show ?case by simp
next
  case (Cons env envs)
  have "set (reminders (run_cycles envs (watch_cycle env st))) \<subseteq> set (reminders (watch_cycle env st))"
    by (rule Cons.IH)
  also have "\<dots> \<subseteq> set (reminders st)" by (rule watch_cycle_subset)
  finally show ?case by simp
qed

text \<open>
  C3 (as the code has it).  Let the firing predicate of the rule at position \<open>k\<close> of the
  active collection match in a cycle that gets to this rule (no \<^verbatim>\<open>save_reminders\<close> raised
  for a rule fired before it).  Then the cycle evaluates the first \<open>n > k\<close> rules, each
  once, removes those of them that fire and keeps the others in order; the alert history
  gains, newest first and capped at 1000, the events of the fired rules whose
  notification was delivered, among them exactly one event for the rule itself when its
  notification is delivered and none when the delivery fails; later cycles never add a
  rule, and when no \<^verbatim>\<open>save_reminders\<close> raises in the cycle every rule that fires is gone
  and the rule is in the collection of no later cycle, so it is never evaluated or fired
  again.  The removal does not depend on the outcome of the delivery.
\<close>

theorem alert_fires_once:
  assumes "k < length (reminders st)"
    and "fires env (reminders st ! k)"
    and "\<forall>j<k. fires env (reminders st ! j) \<longrightarrow> env_save_reminders env j"
    and "length (alert_events st) \<le> 1000"
  shows "k < processed env 0 (reminders st)
    \<and> reminders (watch_cycle env st)
        = filter (\<lambda>r. \<not> fires env r) (take (processed env 0 (reminders st)) (reminders st))
          @ drop (processed env 0 (reminders st)) (reminders st)
    \<and> alert_events (watch_cycle env st)
        = take 1000 (rev (fired_events env 0 (take (processed env 0 (reminders st)) (reminders st)))
                     @ alert_events st)
    \<and> fired_events env 0 (take (processed env 0 (reminders st)) (reminders st))
        = fired_events env 0 (take k (reminders st))
          @ (if env_delivery env k = SendFailed then []
             else [build_event (reminders st ! k) (current_value env (reminders st ! k))
                     (env_time env k)])
          @ fired_events env (Suc k)
              (drop (Suc k) (take (processed env 0 (reminders st)) (reminders st)))
    \<and> (\<forall>envs. set (reminders (run_cycles envs (watch_cycle env st)))
                \<subseteq> set (reminders (watch_cycle env st)))
    \<and> ((\<forall>j. env_save_reminders env j) \<longrightarrow>
         reminders (watch_cycle env st) = filter (\<lambda>r. \<not> fires env r) (reminders st)
         \<and> (\<forall>envs. reminders st ! k \<notin> set (reminders (run_cycles envs (watch_cycle env st)))))"
proof -
  define rs where "rs = reminders st"
  define n where "n = processed env 0 rs"
  have kn: "k < n"
    unfolding n_def using assms(1,3) by (intro processed_reaches) (simp_all add: rs_def)
  have nl: "n \<le> length rs" by (simp add: n_def processed_le)
  have rem: "reminders (watch_cycle env st)
      = filter (\<lambda>r. \<not> fires env r) (take n rs) @ drop n rs"
    using eval_rules_reminders [of st "[]" "reminders st" env 0]
    by (simp add: watch_cycle_def n_def rs_def)
  have ev: "alert_events (watch_cycle env st)
      = take 1000 (rev (fired_events env 0 (take n rs)) @ alert_events st)"
    using eval_rules_events [of st "[]" "reminders st" env 0] assms(4)
    by (simp add: watch_cycle_def n_def rs_def)
  have split: "take n rs = take k rs @ rs ! k # drop (Suc k) (take n rs)"
    using id_take_nth_drop [of k "take n rs"] kn nl by (simp add: min_def)
  have fe: "fired_events env 0 (take n rs)
      = fired_events env 0 (take k rs)
        @ (if env_delivery env k = SendFailed then []
           else [build_event (rs ! k) (current_value env (rs ! k)) (env_time env k)])
        @ fired_events env (Suc k) (drop (Suc k) (take n rs))"
  proof -
    have lk: "length (take k rs) = k" using assms(1) by (simp add: rs_def)
    have "fired_events env 0 (take n rs)
        = fired_events env 0 (take k rs @ rs ! k # drop (Suc k) (take n rs))"
      using split by simp
    also have "\<dots> = fired_events env 0 (take k rs)
        @ fired_events env k (rs ! k # drop (Suc k) (take n rs))"
      by (simp only: fired_events_append lk add_0)
    finally show ?thesis
      using assms(2) by (simp add: rs_def)
  qed
  have sub: "\<forall>envs. set (reminders (run_cycles envs (watch_cycle env st)))
                \<subseteq> set (reminders (watch_cycle env st))"
    by (simp add: run_cycles_subset)
  have all: "reminders (watch_cycle env st) = filter (\<lambda>r. \<not> fires env r) rs
         \<and> (\<forall>envs. rs ! k \<notin> set (reminders (run_cycles envs (watch_cycle env st))))"
    if "\<forall>j. env_save_reminders env j"
  proof -
    have "n = length rs" using that by (simp add: n_def processed_all)
    then have r: "reminders (watch_cycle env st) = filter (\<lambda>r. \<not> fires env r) rs"
      using rem by simp
    then have "rs ! k \<notin> set (reminders (watch_cycle env st))"
      using assms(2) by (simp add: rs_def)
    with sub r show ?thesis by blast
  qed
  from kn rem ev fe sub all show ?thesis
    unfolding n_def rs_def by blast
qed

theorem alert_fires_once_witness:
  "fires (env_ex Delivered) rem_ex
   \<and> watch_cycle (env_ex Delivered) st_ex
       = \<lparr> reminders = [], alert_events = [build_event rem_ex (Some 120) 30] \<rparr>
   \<and> run_cycles [env_ex Delivered, env_ex Delivered] (watch_cycle (env_ex Delivered) st_ex)
       = \<lparr> reminders = [], alert_events = [build_event rem_ex (Some 120) 30] \<rparr>"
proof -
  have f: "fires (env_ex Delivered) rem_ex"
    by (simp add: fires_def meets_def current_value_def env_ex_def rem_ex_def snap_ex_def)
  have c: "current_value (env_ex Delivered) rem_ex = Some 120"
    by (simp add: current_value_def env_ex_def snap_ex_def)
  have s: "\<forall>j. env_save_reminders (env_ex Delivered) j"
    by (simp add: env_ex_def)
  have d: "env_delivery (env_ex Delivered) 0 = Delivered" "env_time (env_ex Delivered) 0 = 30"
    by (simp_all add: env_ex_def)
  have "reminders (watch_cycle (env_ex Delivered) st_ex) = []
      \<and> alert_events (watch_cycle (env_ex Delivered) st_ex) = [build_event rem_ex (Some 120) 30]"
    using alert_fires_once [where st = st_ex and env = "env_ex Delivered" and k = 0] f c s d
    by (simp add: st_ex_def processed_all)
  then have w: "watch_cycle (env_ex Delivered) st_ex
       = \<lparr> reminders = [], alert_events = [build_event rem_ex (Some 120) 30] \<rparr>"
    by (cases "watch_cycle (env_ex Delivered) st_ex") simp
  show ?thesis
    using f w by (simp add: watch_cycle_def)
qed

text \<open>
  The claim as the specification words it, with exactly one event for every fire, fails
  when the delivery of the notification fails: the rule fires and is removed, and the
  history stays empty.
\<close>

theorem alert_event_counterexample:
  "fires (env_ex SendFailed) rem_ex
   \<and> env_delivery (env_ex SendFailed) 0 = SendFailed
   \<and> watch_cycle (env_ex SendFailed) st_ex = \<lparr> reminders = [], alert_events = [] \<rparr>"
  by (simp add: fires_def meets_def current_value_def env_ex_def rem_ex_def snap_ex_def
        watch_cycle_def st_ex_def attempt_alert_def)

lemma watch_invoice_expired:
  assumes "inv_status invoice = ''pending''"
    and "now - inv_created_ts invoice > real_of_int (PAY_EXPIRY_SEC cfg)"
  shows "watch_invoice cfg now ledger invoice = invoice\<lparr>inv_status := ''expired''\<rparr>"
  using assms by (simp add: watch_invoice_def)

lemma payments_cycle_nth:
  "i < length invoices \<Longrightarrow>
   payments_cycle cfg now ledger invoices ! i = watch_invoice cfg now (ledger i) (invoices ! i)"
  by (simp add: payments_cycle_def)

text \<open>
  C4.  In a cycle of the payment watcher, a pending invoice whose age exceeds the expiry
  duration becomes expired, whatever the ledger answers: the result does not depend on the
  ledger, so a matching transaction in the scan does not make it paid.
\<close>

theorem expiry_precedes_payment:
  assumes "i < length invoices"
    and "inv_status (invoices ! i) = ''pending''"
    and "now - inv_created_ts (invoices ! i) > real_of_int (PAY_EXPIRY_SEC cfg)"
  shows "payments_cycle cfg now ledger invoices ! i = (invoices ! i)\<lparr>inv_status := ''expired''\<rparr>
     \<and> inv_status (payments_cycle cfg now ledger invoices ! i) \<noteq> ''paid''"
  using assms by (simp add: payments_cycle_nth watch_invoice_expired)

lemma wallet_ex_valid: "is_solana_address wallet_ex"
  by (simp add: is_solana_address_def wallet_ex_def base58_chars_def)

lemma tx_sol_matches: "tx_matches wallet_ex ''Ref1'' inv_sol tx_sol"
  by (simp add: tx_matches_def tx_sol_def inv_sol_def wallet_ex_def)

lemma find_example: "find_matching_tx cfg_ex ledger_ex ''Ref1'' inv_sol = Some ''sig1''"
  using tx_sol_matches wallet_ex_valid
  by (simp add: find_matching_tx_def cfg_ex_def ledger_ex_def fetched_tx_def)

theorem expiry_precedes_payment_witness:
  "find_matching_tx cfg_ex ledger_ex (inv_reference inv_sol) inv_sol = Some ''sig1''
   \<and> payments_cycle cfg_ex 2000 (\<lambda>i. ledger_ex) [inv_sol] ! 0 = inv_sol\<lparr>inv_status := ''expired''\<rparr>"
  using expiry_precedes_payment [where i = 0 and invoices = "[inv_sol]" and now = 2000
      and cfg = cfg_ex and ledger = "\<lambda>i. ledger_ex"] find_example
  by (simp add: inv_sol_def cfg_ex_def)

lemma first_index_takeWhile:
  "first_index keys w i =
     (if w \<in> set keys then Some (i + length (takeWhile (\<lambda>k. k \<noteq> w) keys)) else None)"
  by (induction keys arbitrary: i) auto

lemma tx_matches_needs_reference:
  "reference \<notin> set (tx_accountKeys tx) \<Longrightarrow> \<not> tx_matches wallet reference invoice tx"
  by (simp add: tx_matches_def)

lemma tx_matches_native:
  assumes "inv_asset invoice = ''SOL''" and "reference \<in> set (tx_accountKeys tx)"
  shows "tx_matches wallet reference invoice tx
     \<longleftrightarrow> (\<exists>d. native_delta wallet tx = Some d \<and> d \<ge> inv_amount_base invoice)"
  using assms
  by (auto simp: tx_matches_def native_delta_def Let_def first_index_takeWhile)

lemma scan_signatures_Some:
  "scan_signatures wallet ledger reference invoice sigs = Some sig \<Longrightarrow>
   sig \<in> set sigs \<and> tx_matches wallet reference invoice (fetched_tx ledger sig)"
  by (induction sigs) (auto split: if_splits)

lemma scan_signatures_first:
  assumes "k < length sigs"
    and "tx_matches wallet reference invoice (fetched_tx ledger (sigs ! k))"
    and "\<forall>j<k. \<not> tx_matches wallet reference invoice (fetched_tx ledger (sigs ! j))"
  shows "scan_signatures wallet ledger reference invoice sigs = Some (sigs ! k)"
  using assms
proof (induction sigs arbitrary: k)
  case Nil
  then show ?case by simp
next
  case (Cons s sigs)
  show ?case
  proof (cases k)
    case 0
    with Cons.prems show ?thesis by simp
  next
    case (Suc k')
    with Cons.prems have "\<not> tx_matches wallet reference invoice (fetched_tx ledger s)"
      by auto
    moreover have "scan_signatures wallet ledger reference invoice sigs = Some (sigs ! k')"
      using Cons.prems Suc by (intro Cons.IH) auto
    ultimately show ?thesis using Suc by simp
  qed
qed

text \<open>
  C5.  A transaction whose account keys do not include the correlation reference does not
  match, whatever its balances, and the signature that the scan returns is that of a
  transaction that includes the reference.  For a pending invoice of the native asset
  that has not expired, with a valid recipient wallet configured: a transaction that the
  scan gets to (no earlier one matches), that includes the reference and whose
  post-minus-pre balance delta of the recipient wallet is at least the requested amount
  makes the invoice paid, with the signature of this transaction recorded.
\<close>

theorem payment_matching:
  "(reference \<notin> set (tx_accountKeys tx) \<longrightarrow> \<not> tx_matches wallet reference invoice tx)
   \<and> (find_matching_tx cfg ledger reference invoice = Some sig
        \<longrightarrow> reference \<in> set (tx_accountKeys (fetched_tx ledger sig)))
   \<and> (inv_status invoice = ''pending''
        \<and> \<not> now - inv_created_ts invoice > real_of_int (PAY_EXPIRY_SEC cfg)
        \<and> is_solana_address (DONATION_WALLET cfg)
        \<and> ledger_signatures ledger = Some sigs \<and> k < length sigs \<and> sigs ! k \<noteq> []
        \<and> (\<forall>j<k. \<not> tx_matches (DONATION_WALLET cfg) (inv_reference invoice) invoice
                     (fetched_tx ledger (sigs ! j)))
        \<and> inv_asset invoice = ''SOL''
        \<and> inv_reference invoice \<in> set (tx_accountKeys (fetched_tx ledger (sigs ! k)))
        \<and> native_delta (DONATION_WALLET cfg) (fetched_tx ledger (sigs ! k)) = Some d
        \<and> d \<ge> inv_amount_base invoice
      \<longrightarrow> watch_invoice cfg now ledger invoice
            = invoice\<lparr>inv_status := ''paid'', inv_tx_sig := sigs ! k\<rparr>)"
proof (intro conjI impI)
  show "\<not> tx_matches wallet reference invoice tx" if "reference \<notin> set (tx_accountKeys tx)"
    using that by (rule tx_matches_needs_reference)
  show "reference \<in> set (tx_accountKeys (fetched_tx ledger sig))"
    if "find_matching_tx cfg ledger reference invoice = Some sig"
  proof -
    from that have "tx_matches (DONATION_WALLET cfg) reference invoice (fetched_tx ledger sig)"
      by (auto simp: find_matching_tx_def split: if_splits option.splits
               dest: scan_signatures_Some)
    then show ?thesis
      using tx_matches_needs_reference by blast
  qed
next
  assume a: "inv_status invoice = ''pending''
        \<and> \<not> now - inv_created_ts invoice > real_of_int (PAY_EXPIRY_SEC cfg)
        \<and> is_solana_address (DONATION_WALLET cfg)
        \<and> ledger_signatures ledger = Some sigs \<and> k < length sigs \<and> sigs ! k \<noteq> []
        \<and> (\<forall>j<k. \<not> tx_matches (DONATION_WALLET cfg) (inv_reference invoice) invoice
                     (fetched_tx ledger (sigs ! j)))
        \<and> inv_asset invoice = ''SOL''
        \<and> inv_reference invoice \<in> set (tx_accountKeys (fetched_tx ledger (sigs ! k)))
        \<and> native_delta (DONATION_WALLET cfg) (fetched_tx ledger (sigs ! k)) = Some d
        \<and> d \<ge> inv_amount_base invoice"
  then have "tx_matches (DONATION_WALLET cfg) (inv_reference invoice) invoice
      (fetched_tx ledger (sigs ! k))"
    by (simp add: tx_matches_native)
  with a have "scan_signatures (DONATION_WALLET cfg) ledger (inv_reference invoice) invoice sigs
      = Some (sigs ! k)"
    by (intro scan_signatures_first) simp_all
  with a have "find_matching_tx cfg ledger (inv_reference invoice) invoice = Some (sigs ! k)"
    by (simp add: find_matching_tx_def)
  with a show "watch_invoice cfg now ledger invoice
            = invoice\<lparr>inv_status := ''paid'', inv_tx_sig := sigs ! k\<rparr>"
    by (simp add: watch_invoice_def)
qed

theorem payment_matching_witness:
  "\<not> tx_matches wallet_ex ''Ref1'' inv_sol tx_noref
   \<and> find_matching_tx cfg_ex ledger_ex ''Ref1'' inv_sol = Some ''sig1''
   \<and> ''Ref1'' \<in> set (tx_accountKeys (fetched_tx ledger_ex ''sig1''))
   \<and> native_delta wallet_ex tx_noref = Some 1000
   \<and> native_delta wallet_ex tx_sol = Some 1000
   \<and> watch_invoice cfg_ex 100 ledger_ex inv_sol
       = inv_sol\<lparr>inv_status := ''paid'', inv_tx_sig := ''sig1''\<rparr>"
proof -
  have n: "native_delta wallet_ex tx_sol = Some 1000" "native_delta wallet_ex tx_noref = Some 1000"
    by (simp_all add: native_delta_def tx_sol_def tx_noref_def wallet_ex_def)
  have f: "fetched_tx ledger_ex ''sig1'' = tx_sol"
    by (simp add: fetched_tx_def ledger_ex_def)
  have r: "''Ref1'' \<in> set (tx_accountKeys tx_sol)" "''Ref1'' \<notin> set (tx_accountKeys tx_noref)"
    by (simp_all add: tx_sol_def tx_noref_def wallet_ex_def)
  show ?thesis
    using payment_matching [where reference = "''Ref1''" and tx = tx_noref and wallet = wallet_ex
        and invoice = inv_sol and cfg = cfg_ex and ledger = ledger_ex and sig = "''sig1''"
        and now = 100 and sigs = "[''sig1'']" and k = 0 and d = 1000] n f r wallet_ex_valid
      find_example
    by (simp add: inv_sol_def cfg_ex_def ledger_ex_def)
qed

lemma tb_map_lookup:
  "map_of (tb_map mint tbs out) = map_of (rev (List.map_filter (entry_of mint) tbs) @ out)"
proof (induction tbs arbitrary: out)
  case Nil
  then show ?case by simp
next
  case (Cons tb tbs)
  show ?case
  proof (cases "entry_of mint tb")
    case None
    then have "tb_map mint (tb # tbs) out = tb_map mint tbs out"
      by (auto simp: entry_of_def split: if_splits option.splits)
    with None Cons.IH show ?thesis by simp
  next
    case (Some e)
    then have e: "e = (tb_accountIndex tb, snd e)"
      by (auto simp: entry_of_def split: if_splits option.splits)
    from Some have "tb_map mint (tb # tbs) out
        = tb_map mint tbs (AList.update (tb_accountIndex tb) (snd e) out)"
      by (auto simp: entry_of_def split: if_splits option.splits)
    then have "map_of (tb_map mint (tb # tbs) out)
        = map_of (rev (List.map_filter (entry_of mint) tbs)
                  @ AList.update (tb_accountIndex tb) (snd e) out)"
      by (simp add: Cons.IH)
    also have "\<dots> = map_of (rev (List.map_filter (entry_of mint) tbs) @ [e] @ out)"
      by (subst e) (simp add: map_add_def update_conv' fun_eq_iff split: option.splits)
    finally show ?thesis using Some by simp
  qed
qed

lemma tb_map_keys:
  "set (map fst (tb_map mint tbs out))
     = fst ` set (List.map_filter (entry_of mint) tbs) \<union> set (map fst out)"
proof -
  have "set (map fst (tb_map mint tbs out)) = dom (map_of (tb_map mint tbs out))"
    by (simp add: dom_map_of_conv_image_fst)
  also have "\<dots> = dom (map_of (rev (List.map_filter (entry_of mint) tbs) @ out))"
    by (simp only: tb_map_lookup)
  also have "\<dots> = fst ` set (List.map_filter (entry_of mint) tbs) \<union> set (map fst out)"
    by (auto simp: dom_map_of_conv_image_fst)
  finally show ?thesis .
qed

lemma tb_map_accounts: "map_of (tb_map mint tbs []) = token_accounts mint tbs"
  by (simp add: tb_map_lookup token_accounts_def)

lemma tb_map_ids:
  "set (map fst (tb_map mint (tx_preTokenBalances tx) []) @ map fst (tb_map mint (tx_postTokenBalances tx) []))
     = token_account_ids mint tx"
  by (simp add: token_account_ids_def tb_map_accounts [symmetric] dom_map_of_conv_image_fst)

lemma add_delta_contribution:
  "add_delta (tb_map mint (tx_preTokenBalances tx) []) (tb_map mint (tx_postTokenBalances tx) [])
       wallet idx acc
     = acc + (case owned_delta mint wallet tx idx of None \<Rightarrow> 0 | Some d \<Rightarrow> max 0 d)"
  by (auto simp: add_delta_def owned_delta_def Let_def tb_map_accounts split: option.splits)

lemma fold_add:
  "(\<And>x t. f x t = t + g x) \<Longrightarrow> fold f xs (a::int) = a + sum_list (map g xs)"
  by (induction xs arbitrary: a) simp_all

lemma sum_usdc_delta_incoming:
  "sum_usdc_delta_for_wallet tx mint wallet = incoming_token_delta mint wallet tx"
proof -
  let ?g = "\<lambda>idx. case owned_delta mint wallet tx idx of None \<Rightarrow> 0 | Some d \<Rightarrow> max 0 d"
  let ?ids = "remdups (map fst (tb_map mint (tx_preTokenBalances tx) [])
                       @ map fst (tb_map mint (tx_postTokenBalances tx) []))"
  have "sum_usdc_delta_for_wallet tx mint wallet = 0 + sum_list (map ?g ?ids)"
    unfolding sum_usdc_delta_for_wallet_def Let_def
    by (rule fold_add) (rule add_delta_contribution)
  also have "sum_list (map ?g ?ids) = sum ?g (set ?ids)"
    by (rule sum_list_distinct_conv_sum_set) simp
  also have "set ?ids = token_account_ids mint tx"
    using tb_map_ids [of mint tx] by simp
  finally show ?thesis by (simp add: incoming_token_delta_def)
qed

text \<open>
  C6 (as the code has it).  For an invoice of a token asset and a transaction that
  includes the correlation reference, the transaction matches exactly when the sum of the
  positive post-minus-pre deltas of the token accounts of the invoice's mint that the
  recipient wallet owns at 6 decimals is at least the requested amount.
\<close>

theorem token_matching:
  assumes "inv_asset invoice \<noteq> ''SOL''" and "reference \<in> set (tx_accountKeys tx)"
  shows "tx_matches wallet reference invoice tx
     \<longleftrightarrow> incoming_token_delta (inv_mint invoice) wallet tx \<ge> inv_amount_base invoice"
  using assms by (simp add: tx_matches_def sum_usdc_delta_incoming)

lemma token_example_ids: "token_account_ids mint_ex tx_token = {1, 2}"
  by (auto simp: token_account_ids_def token_accounts_def tx_token_def token_balance_def
        entry_of_def dom_map_of_conv_image_fst)

lemma token_example_deltas:
  "owned_delta mint_ex wallet_ex tx_token (Suc 0) = Some 10"
  "owned_delta mint_ex wallet_ex tx_token 2 = Some (- 5)"
  by (simp_all add: owned_delta_def token_accounts_def tx_token_def token_balance_def
        entry_of_def)

theorem token_matching_witness:
  "tx_matches wallet_ex ''Ref1'' inv_usdc tx_token
   \<and> incoming_token_delta mint_ex wallet_ex tx_token = 10"
proof -
  have i: "incoming_token_delta mint_ex wallet_ex tx_token = 10"
    by (simp add: incoming_token_delta_def token_example_ids token_example_deltas)
  show ?thesis
    using token_matching [where invoice = inv_usdc and reference = "''Ref1''" and tx = tx_token
        and wallet = wallet_ex] i
    by (simp add: inv_usdc_def inv_sol_def tx_token_def)
qed

text \<open>
  The claim as the specification words it, with the summed delta over all the accounts,
  fails on a transaction that moves 10 units into one account of the wallet and 5 out of
  another: the summed delta is 5, below the requested 8, and the transaction matches.
\<close>

theorem token_matching_counterexample:
  "tx_matches wallet_ex ''Ref1'' inv_usdc tx_token
   \<and> inv_amount_base inv_usdc = 8
   \<and> summed_token_delta (inv_mint inv_usdc) wallet_ex tx_token = 5
   \<and> \<not> summed_token_delta (inv_mint inv_usdc) wallet_ex tx_token \<ge> inv_amount_base inv_usdc"
proof -
  have s: "summed_token_delta mint_ex wallet_ex tx_token = 5"
    by (simp add: summed_token_delta_def token_example_ids token_example_deltas)
  have i: "incoming_token_delta mint_ex wallet_ex tx_token = 10"
    by (simp add: incoming_token_delta_def token_example_ids token_example_deltas)
  have "tx_matches wallet_ex ''Ref1'' inv_usdc tx_token"
    unfolding tx_matches_def sum_usdc_delta_incoming
    using i by (simp add: inv_usdc_def inv_sol_def tx_token_def)
  with s show ?thesis by (simp add: inv_usdc_def inv_sol_def)
qed

end
